theory Spec2Isabelle
  imports Complex_Main "HOL-Library.Sublist" "HOL-Library.Multiset" "HOL-Library.Log_Nat"
    "HOL-Library.Char_ord" "HOL-Library.List_Lexorder" "HOL-Library.Product_Lexorder"
begin

section \<open>Python strings\<close>

text \<open>
  A Python \<open>str\<close> is modelled as a \<open>string\<close> (a list of 8-bit characters). The
  character classes used by the sources (\<open>str.lower\<close>, \<open>str.split\<close>, \<open>\s\<close>, \<open>\w\<close>)
  are modelled on the ASCII range; a character outside ASCII is left alone by
  \<open>py_lower\<close> and is neither a space nor a word character. On ASCII strings
  (\<open>is_ascii\<close>) these are the functions of Python; on other strings \<open>str.lower\<close>
  depends on the neighbours of a character, and a statement about the lower-casing of a
  string that changes is made for ASCII strings only.
\<close>

definition is_ascii :: "string \<Rightarrow> bool" where
  "is_ascii s = list_all (\<lambda>c. (of_char c :: nat) < 128) s"

definition lower_char :: "char \<Rightarrow> char" where
  "lower_char c =
     (let n = (of_char c :: nat) in if 65 \<le> n \<and> n \<le> 90 then char_of (n + 32) else c)"

definition upper_char :: "char \<Rightarrow> char" where
  "upper_char c =
     (let n = (of_char c :: nat) in if 97 \<le> n \<and> n \<le> 122 then char_of (n - 32) else c)"

definition py_lower :: "string \<Rightarrow> string" where
  "py_lower s = map lower_char s"

definition py_upper :: "string \<Rightarrow> string" where
  "py_upper s = map upper_char s"

text \<open>\<open>k in s\<close> on strings: \<open>k\<close> occurs in \<open>s\<close> as a contiguous block.\<close>

definition py_in :: "string \<Rightarrow> string \<Rightarrow> bool" where
  "py_in k s = sublist k s"

text \<open>\<open>s.find(k)\<close>: the offset of the first occurrence of \<open>k\<close> in \<open>s\<close>, or \<open>-1\<close>.\<close>

fun py_find :: "string \<Rightarrow> string \<Rightarrow> int" where
  "py_find s k =
     (if prefix k s then 0
      else case s of
             [] \<Rightarrow> - 1
           | c # cs \<Rightarrow> (let r = py_find cs k in if r < 0 then - 1 else r + 1))"

definition py_isspace :: "char \<Rightarrow> bool" where
  "py_isspace c = (let n = (of_char c :: nat) in (9 \<le> n \<and> n \<le> 13) \<or> (28 \<le> n \<and> n \<le> 32))"

definition py_isalnum_char :: "char \<Rightarrow> bool" where
  "py_isalnum_char c =
     (let n = (of_char c :: nat)
      in (48 \<le> n \<and> n \<le> 57) \<or> (65 \<le> n \<and> n \<le> 90) \<or> (97 \<le> n \<and> n \<le> 122))"

text \<open>\<open>token.isalnum()\<close>: non-empty and every character alphanumeric.\<close>

definition py_isalnum :: "string \<Rightarrow> bool" where
  "py_isalnum s = (s \<noteq> [] \<and> list_all py_isalnum_char s)"

text \<open>\<open>s.split()\<close>: the maximal runs of non-space characters.\<close>

fun split_ws :: "string \<Rightarrow> string \<Rightarrow> string list" where
  "split_ws cur [] = (if cur = [] then [] else [cur])"
| "split_ws cur (c # cs) =
     (if py_isspace c then (if cur = [] then split_ws [] cs else cur # split_ws [] cs)
      else split_ws (cur @ [c]) cs)"

definition py_split :: "string \<Rightarrow> string list" where
  "py_split s = split_ws [] s"

text \<open>\<open>s.strip()\<close> and \<open>s.rstrip('/')\<close>.\<close>

definition py_strip :: "string \<Rightarrow> string" where
  "py_strip s = rev (dropWhile py_isspace (rev (dropWhile py_isspace s)))"

definition rstrip_slash :: "string \<Rightarrow> string" where
  "rstrip_slash s = rev (dropWhile (\<lambda>c. c = CHR ''/'') (rev s))"

text \<open>\<open>sep.join(parts)\<close>.\<close>

fun py_join :: "string \<Rightarrow> string list \<Rightarrow> string" where
  "py_join sep [] = []"
| "py_join sep [x] = x"
| "py_join sep (x # y # ys) = x @ sep @ py_join sep (y # ys)"

text \<open>\<open>str(n)\<close> for a non-negative integer.\<close>

fun digits_of :: "nat \<Rightarrow> string" where
  "digits_of n =
     (if n < 10 then [char_of (48 + n)] else digits_of (n div 10) @ [char_of (48 + n mod 10)])"

section \<open>Python floats\<close>

text \<open>
  A Python \<open>float\<close> is an IEEE 754 binary64 number, modelled as the rational it
  denotes. An operation returns the exact result rounded to the nearest number with a
  53-bit significand, a tie going to the even significand (\<open>round_double\<close>): the
  argument is scaled by powers of two into the range from \<open>2^52\<close> to \<open>2^53\<close>, rounded
  to an integer there and scaled back. The exponent range is taken as unbounded: the
  scores of this program are sums of a few weights, far from overflow and underflow.
\<close>

definition round_half_even :: "rat \<Rightarrow> int" where
  "round_half_even q =
     (let f = floor q; r = q - of_int f
      in if r < 1 / 2 then f else if r > 1 / 2 then f + 1 else if even f then f else f + 1)"

function round_pos :: "rat \<Rightarrow> rat" where
  "round_pos x =
     (if x \<le> 0 then 0
      else if x \<ge> 2 ^ 53 then 2 * round_pos (x / 2)
      else if x < 2 ^ 52 then round_pos (2 * x) / 2
      else of_int (round_half_even x))"
  by pat_completeness auto
termination
proof (relation "measure (\<lambda>x. if x \<ge> 2 ^ 53 then nat (floor x)
                             else if x < 2 ^ 52 then nat (floor (2 ^ 52 / x)) else 0)")
  show "wf (measure (\<lambda>x::rat. if x \<ge> 2 ^ 53 then nat (floor x)
                             else if x < 2 ^ 52 then nat (floor (2 ^ 52 / x)) else 0))"
    by simp
next
  have floor_half_less: "floor (q / 2) < floor q" if "1 \<le> q" for q :: rat
  proof -
    have "q / 2 \<le> q - 1 \<or> q < 2" by linarith
    then show ?thesis
    proof
      assume "q / 2 \<le> q - 1"
      then have "floor (q / 2) \<le> floor (q - 1)" by (rule floor_mono)
      then show ?thesis by simp
    next
      assume "q < 2"
      then have "floor (q / 2) = 0" using that by (simp add: floor_eq_iff)
      moreover have "floor q \<ge> 1" using that by (simp add: le_floor_iff)
      ultimately show ?thesis by simp
    qed
  qed
  {
    fix x :: rat
    assume a: "\<not> x \<le> 0" "2 ^ 53 \<le> x"
    have 1: "floor (x / 2) < floor x" using a by (intro floor_half_less) simp
    have 2: "0 < floor x" using a by (simp add: less_floor_iff)
    have 3: "\<not> x / 2 < 2 ^ 52" using a by simp
    show "(x / 2, x) \<in> measure (\<lambda>x. if x \<ge> 2 ^ 53 then nat (floor x)
                             else if x < 2 ^ 52 then nat (floor (2 ^ 52 / x)) else 0)"
      using a 1 2 3 by (simp del: floor_divide_eq_div_numeral)
  next
    fix x :: rat
    assume a: "\<not> x \<le> 0" "\<not> 2 ^ 53 \<le> x" "x < 2 ^ 52"
    have q: "1 \<le> 2 ^ 52 / x" using a by (simp add: le_divide_eq)
    have 1: "floor (2 ^ 52 / (2 * x)) < floor (2 ^ 52 / x)"
      using floor_half_less [OF q] by (simp add: field_simps)
    have 2: "0 < floor (2 ^ 52 / x)" using q by (simp add: less_floor_iff)
    have 3: "\<not> 2 ^ 53 \<le> 2 * x" using a by simp
    show "(2 * x, x) \<in> measure (\<lambda>x. if x \<ge> 2 ^ 53 then nat (floor x)
                             else if x < 2 ^ 52 then nat (floor (2 ^ 52 / x)) else 0)"
      using a 1 2 3 by (simp del: floor_divide_eq_div_numeral)
  }
qed

declare round_pos.simps [simp del]

definition round_double :: "rat \<Rightarrow> rat" where
  "round_double x = (if x < 0 then - round_pos (- x) else round_pos x)"

text \<open>A float literal, and \<open>+\<close>, \<open>*\<close> and \<open>/\<close> on floats.\<close>

definition py_float :: "rat \<Rightarrow> rat" where
  "py_float x = round_double x"

definition float_add :: "rat \<Rightarrow> rat \<Rightarrow> rat" where
  "float_add x y = round_double (x + y)"

definition float_mul :: "rat \<Rightarrow> rat \<Rightarrow> rat" where
  "float_mul x y = round_double (x * y)"

definition float_div :: "rat \<Rightarrow> rat \<Rightarrow> rat" where
  "float_div x y = round_double (x / y)"

section \<open>Documents\<close>

text \<open>
  The page dictionary built by \<open>extract_content\<close> and read back by \<open>search\<close>. The
  value under \<open>title\<close> is a string or Python's \<open>None\<close> (\<open>soup.title.string\<close> of a title
  element without a single string, a \<open>NULL\<close> column of the table). The key \<open>relevance\<close>
  is absent (\<open>None\<close>) until \<open>summarize_results\<close> stores it.
\<close>

record doc =
  url :: string
  title :: "string option"
  text_content :: string
  meta_description :: string
  tables :: "string list list list"
  links :: "string list"
  aria_labels :: "(string \<times> string) list"
  announcements :: "(string \<times> string option \<times> string option) list"
  services :: "(string \<times> string option \<times> string option) list"
  satellite_data :: "(string \<times> string option \<times> string option) list"
  crawl_timestamp :: string
  category :: string
  relevance :: "rat option"

section \<open>scraper.py: category classification\<close>

definition determine_category :: "string \<Rightarrow> string" where
  "determine_category u =
     (let url_lower = py_lower u in
      if py_in ''/missions/'' url_lower then ''missions''
      else if py_in ''/catalog/'' url_lower then ''catalog''
      else if py_in ''/galleries/'' url_lower then ''galleries''
      else if py_in ''/data-access/'' url_lower then ''data_access''
      else if py_in ''/reports/'' url_lower then ''reports''
      else if py_in ''/services/'' url_lower then ''services''
      else ''other'')"



section \<open>indexer.py: text and URL cleaning\<close>

text \<open>\<open>re.sub(r'\s+', ' ', text)\<close>: every maximal run of spaces becomes one blank.\<close>

function collapse_ws :: "string \<Rightarrow> string" where
  "collapse_ws [] = []"
| "collapse_ws (c # cs) =
     (if py_isspace c then CHR '' '' # collapse_ws (dropWhile py_isspace cs)
      else c # collapse_ws cs)"
  by pat_completeness auto
termination
  by (relation "measure length") (auto simp: length_dropWhile_le less_Suc_eq_le)

text \<open>
  The characters \<open>re.sub(r'[^\w\s.,!?-]', '', text)\<close> keeps, with \<open>\w\<close> and \<open>\s\<close> on the
  ASCII range (Python's classes also hold letters and spaces outside ASCII).
\<close>

definition keep_char :: "char \<Rightarrow> bool" where
  "keep_char c =
     (py_isalnum_char c \<or> c = CHR ''_'' \<or> py_isspace c \<or>
      c \<in> set ''.,!?-'')"

definition clean_text :: "string \<Rightarrow> string" where
  "clean_text t = py_strip (filter keep_char (collapse_ws t))"

definition clean_url :: "string \<Rightarrow> string" where
  "clean_url u =
     (let u1 = rstrip_slash u in
      if py_in ''?'' u1 \<and> \<not> (\<exists>param \<in> set [''id='', ''page='', ''view='']. py_in param u1)
      then takeWhile (\<lambda>c. c \<noteq> CHR ''?'') u1
      else u1)"



section \<open>scraper.py: extraction and the crawl traversal\<close>

text \<open>
  What the parsed page (\<open>soup\<close>) yields to \<open>extract_content\<close>: for the title element, when
  there is one, its \<open>string\<close> (a string, or \<open>None\<close> when the element holds no single
  string), the description when there is a description meta element,
  the text of the main element when there is one, the cell texts of every row of every
  table, the \<open>href\<close> values of the anchors, the aria labels, and the records of the
  announcement, service and satellite-data sections.
\<close>

record page =
  soup_title :: "string option option"
  soup_meta_description :: "string option"
  soup_main_text :: "string option"
  soup_tables :: "string list list list"
  soup_hrefs :: "string list"
  soup_aria_labels :: "(string \<times> string) list"
  soup_announcements :: "(string \<times> string option \<times> string option) list"
  soup_services :: "(string \<times> string option \<times> string option) list"
  soup_satellite_data :: "(string \<times> string option \<times> string option) list"

text \<open>
  The collaborators of the scraper: the rendering of a URL (\<open>None\<close> when loading,
  waiting, parsing or extracting raises), \<open>urljoin\<close> and the network location of
  \<open>urlparse\<close>, the clock, and whether writing the snapshot file succeeds.
\<close>

record web =
  base_url :: string
  render :: "string \<Rightarrow> page option"
  urljoin :: "string \<Rightarrow> string \<Rightarrow> string"
  netloc :: "string \<Rightarrow> string"
  clock :: "string \<Rightarrow> string"
  save_progress_ok :: "doc list \<Rightarrow> bool"

definition is_valid_url :: "web \<Rightarrow> string \<Rightarrow> bool" where
  "is_valid_url w u = (netloc w u = netloc w (base_url w))"

definition extract_content :: "web \<Rightarrow> page \<Rightarrow> string \<Rightarrow> doc" where
  "extract_content w soup u =
     \<lparr> url = u,
       title = (case soup_title soup of Some title_string \<Rightarrow> title_string | None \<Rightarrow> Some []),
       text_content = (case soup_main_text soup of Some t \<Rightarrow> t | None \<Rightarrow> []),
       meta_description = (case soup_meta_description soup of Some t \<Rightarrow> t | None \<Rightarrow> []),
       tables = filter (\<lambda>table_data. table_data \<noteq> [])
                  (map (filter (\<lambda>row_data. row_data \<noteq> [])) (soup_tables soup)),
       links = filter (is_valid_url w)
                 (map (urljoin w u) (filter (\<lambda>href. href \<noteq> []) (soup_hrefs soup))),
       aria_labels = soup_aria_labels soup,
       announcements = (if u = base_url w then soup_announcements soup else []),
       services = soup_services soup,
       satellite_data = soup_satellite_data soup,
       crawl_timestamp = clock w u,
       category = determine_category u,
       relevance = None \<rparr>"

record crawl_state =
  visited_urls :: "string set"
  content_data :: "doc list"

definition fresh_scraper :: crawl_state where
  "fresh_scraper = \<lparr> visited_urls = {}, content_data = [] \<rparr>"

text \<open>
  \<open>crawl_page\<close> with its loop over the links of the page (\<open>crawl_links\<close>). Every
  exception raised after the URL is marked visited is caught by the \<open>except\<close> of the
  same call: the state reached so far is kept and the call returns.
\<close>

function crawl_page :: "web \<Rightarrow> string \<Rightarrow> int \<Rightarrow> int \<Rightarrow> crawl_state \<Rightarrow> crawl_state"
  and crawl_links :: "web \<Rightarrow> string list \<Rightarrow> int \<Rightarrow> int \<Rightarrow> crawl_state \<Rightarrow> crawl_state"
where
  "crawl_page w u depth max_depth s =
     (if u \<in> visited_urls s \<or> depth > max_depth then s
      else
        (let s1 = s\<lparr>visited_urls := insert u (visited_urls s)\<rparr> in
         case render w u of
           None \<Rightarrow> s1
         | Some soup \<Rightarrow>
             (let content = extract_content w soup u;
                  s2 = s1\<lparr>content_data := content_data s1 @ [content]\<rparr>
              in if save_progress_ok w (content_data s2)
                 then crawl_links w (links content) depth max_depth s2
                 else s2)))"
| "crawl_links w [] depth max_depth s = s"
| "crawl_links w (link # rest) depth max_depth s =
     crawl_links w rest depth max_depth
       (if link \<notin> visited_urls s then crawl_page w link (depth + 1) max_depth s else s)"
  by pat_completeness auto
termination
  by (relation "measures
        [\<lambda>x. case x of
           Inl (w, u, depth, max_depth, s) \<Rightarrow> 2 * nat (max_depth + 1 - depth)
         | Inr (w, ls, depth, max_depth, s) \<Rightarrow> 2 * nat (max_depth - depth) + 1,
         \<lambda>x. case x of
           Inl (w, u, depth, max_depth, s) \<Rightarrow> 0
         | Inr (w, ls, depth, max_depth, s) \<Rightarrow> length ls]")
    auto

declare crawl_page.simps [simp del]

definition start_crawling :: "web \<Rightarrow> crawl_state" where
  "start_crawling w = crawl_page w (base_url w) 0 3 fresh_scraper"


section \<open>indexer.py: the document store\<close>

datatype py_error = OperationalError | ValueError | AttributeError

text \<open>
  The collaborators of the indexer. PostgreSQL: the rows of the table keyed by URL,
  what the ranked \<open>SELECT\<close> of \<open>search\<close> yields for a cleaned query, a category filter
  and a limit (its rows, or the error the cursor raises), and the error, if any, that
  the cursor raises on the upsert of a row. The standard library: whether
  \<open>datetime.fromisoformat\<close> accepts a timestamp string.
\<close>

record store =
  table_rows :: "string \<rightharpoonup> doc"
  execute_select :: "string \<Rightarrow> string option \<Rightarrow> int \<Rightarrow> py_error + doc list"
  execute_upsert :: "doc \<Rightarrow> py_error option"
  fromisoformat_ok :: "string \<Rightarrow> bool"

text \<open>
  \<open>index_document\<close>: the timestamp is parsed (a \<open>ValueError\<close> when it is malformed),
  the text fields that are truthy (neither \<open>None\<close> nor empty) are cleaned, the links
  that are not empty are cleaned with \<open>clean_url\<close>, and the row is upserted under its
  \<open>url\<close> column. An error is logged and raised again.
\<close>

definition index_document :: "store \<Rightarrow> doc \<Rightarrow> py_error + store" where
  "index_document st document =
     (if \<not> fromisoformat_ok st (crawl_timestamp document) then Inl ValueError
      else
        (let d1 = document\<lparr>title := (case title document of
                                         None \<Rightarrow> None
                                       | Some t \<Rightarrow> if t \<noteq> [] then Some (clean_text t)
                                                  else Some t)\<rparr>;
             d2 = d1\<lparr>text_content := (if text_content d1 \<noteq> []
                                       then clean_text (text_content d1)
                                       else text_content d1)\<rparr>;
             d3 = d2\<lparr>meta_description :=
                        (if meta_description d2 \<noteq> [] then clean_text (meta_description d2)
                         else meta_description d2)\<rparr>;
             d4 = d3\<lparr>links := map clean_url (filter (\<lambda>link. link \<noteq> []) (links d3))\<rparr>
         in case execute_upsert st d4 of
              Some e \<Rightarrow> Inl e
            | None \<Rightarrow> Inr (st\<lparr>table_rows := (table_rows st)(url d4 \<mapsto> d4)\<rparr>)))"

fun bulk_index :: "store \<Rightarrow> doc list \<Rightarrow> py_error + store" where
  "bulk_index st [] = Inr st"
| "bulk_index st (d # ds) =
     (case index_document st d of Inl e \<Rightarrow> Inl e | Inr st' \<Rightarrow> bulk_index st' ds)"

text \<open>
  \<open>search\<close>: the whole body stands in a \<open>try\<close> whose handler logs the error and
  returns the empty list. The category filter is added when \<open>category\<close> is truthy.
\<close>

definition search :: "store \<Rightarrow> string \<Rightarrow> string option \<Rightarrow> int \<Rightarrow> py_error + doc list" where
  "search st query category_filter size' =
     (let q = clean_text query;
          cat = (case category_filter of
                   None \<Rightarrow> None
                 | Some c \<Rightarrow> if c = [] then None else Some c)
      in case execute_select st q cat size' of
           Inr rows \<Rightarrow> Inr rows
         | Inl e \<Rightarrow> Inr [])"

section \<open>chatbot.py: relevance scoring and summarization\<close>

text \<open>The NLTK and \<open>textwrap\<close> collaborators.\<close>

record nlp =
  word_tokenize :: "string \<Rightarrow> string list"
  sent_tokenize :: "string \<Rightarrow> string list"
  stop_words :: "string set"
  lemmatize :: "string \<Rightarrow> string"
  textwrap_fill :: "string \<Rightarrow> string"

record chatbot =
  indexer :: store
  toolkit :: nlp
  context_history :: "string list"

definition max_context_length :: nat where
  "max_context_length = 5"

definition preprocess_query :: "chatbot \<Rightarrow> string \<Rightarrow> string list" where
  "preprocess_query cb query =
     (let tokens = word_tokenize (toolkit cb) (py_lower query)
      in map (lemmatize (toolkit cb))
           (filter (\<lambda>token. py_isalnum token \<and> token \<notin> stop_words (toolkit cb)) tokens))"

definition content_words :: "chatbot \<Rightarrow> string \<Rightarrow> string list" where
  "content_words cb sentence =
     filter (\<lambda>w. py_isalnum w \<and> w \<notin> stop_words (toolkit cb))
       (word_tokenize (toolkit cb) (py_lower sentence))"

text \<open>\<open>heapq.nlargest(n, pairs)\<close>: the \<open>n\<close> largest pairs, the largest first.\<close>

definition nlargest :: "nat \<Rightarrow> (rat \<times> string) list \<Rightarrow> (rat \<times> string) list" where
  "nlargest n pairs = take n (rev (sort pairs))"

definition extract_key_sentences :: "chatbot \<Rightarrow> string \<Rightarrow> nat \<Rightarrow> string list" where
  "extract_key_sentences cb text num_sentences =
     (let sentences = sent_tokenize (toolkit cb) text in
      if sentences = [] then []
      else
        (let all_words = concat (map (content_words cb) sentences);
             sentence_scores =
               map (\<lambda>sentence.
                      (let words = content_words cb sentence;
                           score = sum_list (map (\<lambda>w. count_list all_words w) words)
                       in (if length words > 0
                           then float_div (of_nat score) (of_nat (length words))
                           else of_nat score,
                           sentence)))
                   sentences
         in map snd (nlargest num_sentences sentence_scores)))"

text \<open>
  \<open>calculate_relevance\<close>: \<open>doc.get('title', '').lower()\<close> raises \<open>AttributeError\<close> when
  the title is \<open>None\<close>; otherwise the weights are added as floats, signal by signal.
\<close>

definition calculate_relevance :: "chatbot \<Rightarrow> doc \<Rightarrow> string list \<Rightarrow> py_error + rat" where
  "calculate_relevance cb d keywords =
     (case title d of
        None \<Rightarrow> Inl AttributeError
      | Some title_string \<Rightarrow>
          Inr (let title_l = py_lower title_string;
                   r1 = foldl (\<lambda>r keyword.
                                 if py_in keyword title_l then float_add r 3
                                 else if list_ex (\<lambda>word. py_in keyword word) (py_split title_l)
                                      then float_add r 2 else r)
                          0 keywords;
                   desc = py_lower (meta_description d);
                   r2 = foldl (\<lambda>r keyword.
                                 if py_in keyword desc then float_add r (3 / 2)
                                 else if list_ex (\<lambda>word. py_in keyword word) (py_split desc)
                                      then float_add r 1 else r)
                          r1 keywords;
                   content = py_lower (text_content d);
                   r3 = foldl (\<lambda>r keyword.
                                 if py_in keyword content
                                 then foldl (\<lambda>r' other_keyword.
                                               if other_keyword \<noteq> keyword \<and>
                                                  \<bar>py_find content keyword -
                                                   py_find content other_keyword\<bar> < 50
                                               then float_add r' (py_float (3 / 10)) else r')
                                        (float_add r (1 / 2)) keywords
                                 else r)
                          r2 keywords;
                   cat = py_lower (category d);
                   r4 = foldl (\<lambda>r keyword. if py_in keyword cat then float_add r 2 else r)
                          r3 keywords
               in foldl (\<lambda>r context.
                           foldl (\<lambda>r' keyword.
                                    if py_in keyword content then float_add r' (py_float (1 / 5))
                                    else r')
                             r (preprocess_query cb context))
                    r4 (context_history cb)))"

text \<open>\<open>x.get('relevance', 0)\<close>.\<close>

definition get_relevance :: "doc \<Rightarrow> rat" where
  "get_relevance d = (case relevance d of Some r \<Rightarrow> r | None \<Rightarrow> 0)"

text \<open>
  \<open>results.sort(key=..., reverse=True)\<close>: descending, and documents of equal score
  keep their order.
\<close>

definition sort_by_relevance :: "doc list \<Rightarrow> doc list" where
  "sort_by_relevance ds = rev (sort_key get_relevance (rev ds))"

definition min_relevance :: rat where
  "min_relevance = 1 / 2"

definition no_results_message :: "string \<Rightarrow> string" where
  "no_results_message query =
     ''I couldn'' @ [CHR 0x27] @ ''t find any information about '' @ [CHR 0x27] @ query @
     [CHR 0x27] @ '' in the MOSDAC database.''"

definition low_relevance_message :: "string \<Rightarrow> string" where
  "low_relevance_message query =
     ''I found some results, but none were relevant enough to your query about '' @
     [CHR 0x27] @ query @ [CHR 0x27] @ ''.''"

text \<open>The dictionary of categories, in insertion order.\<close>

definition add_to_category :: "(string \<times> doc list) list \<Rightarrow> doc \<Rightarrow> (string \<times> doc list) list" where
  "add_to_category groups d =
     (if category d \<in> set (map fst groups)
      then map (\<lambda>g. if fst g = category d then (fst g, snd g @ [d]) else g) groups
      else groups @ [(category d, [d])])"

definition pin_mark :: string where
  "pin_mark = [CHR 0xC3, CHR 0xB0, CHR 0xC5, CHR 0xB8, CHR 0xE2, CHR 0x80, CHR 0x9C, CHR 0xC5, CHR 0x92]"

definition bullet_mark :: string where
  "bullet_mark = [CHR 0xC3, CHR 0xA2, CHR 0xE2, CHR 0x82, CHR 0xAC, CHR 0xC2, CHR 0xA2]"

definition doc_lines :: "chatbot \<Rightarrow> string list \<Rightarrow> doc \<Rightarrow> string list" where
  "doc_lines cb keywords d =
     (let title_text = (case title d of Some t \<Rightarrow> t | None \<Rightarrow> ''None'');
          desc = meta_description d;
          key_sentences = extract_key_sentences cb (text_content d) 3;
          relevant_links =
            filter (\<lambda>link. list_ex (\<lambda>keyword. py_in (py_lower keyword) (py_lower link)) keywords)
              (links d)
      in [[CHR 0x0A] @ bullet_mark @ '' '' @ title_text]
         @ (if desc \<noteq> [] then [''  '' @ textwrap_fill (toolkit cb) desc] else [])
         @ (if key_sentences \<noteq> []
            then ''  Key points:'' #
                 map (\<lambda>sentence. ''  - '' @ textwrap_fill (toolkit cb) sentence) key_sentences
            else [])
         @ (if relevant_links \<noteq> []
            then ''  Relevant links:'' # map (\<lambda>link. ''  - '' @ link) (take 3 relevant_links)
            else [])
         @ (case relevance d of
              None \<Rightarrow> []
            | Some r \<Rightarrow>
                (let confidence = min 100 (floor (float_mul r 20))
                 in if confidence \<ge> 50
                    then [''  Confidence: '' @ digits_of (nat confidence) @ ''%'']
                    else [])))"

definition summary_lines :: "chatbot \<Rightarrow> string list \<Rightarrow> doc list \<Rightarrow> string list" where
  "summary_lines cb keywords kept =
     (''I found '' @ digits_of (length kept) @ '' relevant results about your query:'' @ [CHR 0x0A])
     # concat (map (\<lambda>g. ([CHR 0x0A] @ pin_mark @ '' '' @ py_upper (fst g) @ '':'')
                           # concat (map (doc_lines cb keywords) (snd g)))
                (foldl add_to_category [] kept))"

text \<open>
  The loop \<open>for doc in results: doc['relevance'] = ...\<close>: the documents as the loop
  leaves them, and the error that ended it, if any. The documents in front of the one
  that raises have their score stored already.
\<close>

fun score_results :: "chatbot \<Rightarrow> string list \<Rightarrow> doc list \<Rightarrow> doc list \<times> py_error option" where
  "score_results cb keywords [] = ([], None)"
| "score_results cb keywords (d # ds) =
     (case calculate_relevance cb d keywords of
        Inl e \<Rightarrow> (d # ds, Some e)
      | Inr r \<Rightarrow>
          (case score_results cb keywords ds of
             (ds', err) \<Rightarrow> (d\<lparr>relevance := Some r\<rparr> # ds', err)))"

text \<open>
  \<open>summarize_results\<close> returns the response or raises; the first component is the
  caller's list object as the call leaves it (the loop stores \<open>relevance\<close> into each
  document and \<open>results.sort\<close> sorts that list in place; the filtered list is a new
  object).
\<close>

definition summarize_results ::
    "chatbot \<Rightarrow> doc list \<Rightarrow> string \<Rightarrow> doc list \<times> (py_error + string)" where
  "summarize_results cb results query =
     (if results = [] then (results, Inr (no_results_message query))
      else
        (let keywords = preprocess_query cb query in
         case score_results cb keywords results of
           (scored, Some e) \<Rightarrow> (scored, Inl e)
         | (scored, None) \<Rightarrow>
             (let sorted = sort_by_relevance scored;
                  kept = filter (\<lambda>d. get_relevance d \<ge> min_relevance) sorted
              in if kept = [] then (sorted, Inr (low_relevance_message query))
                 else (sorted, Inr (py_join [CHR 0x0A] (summary_lines cb keywords kept))))))"

text \<open>\<open>chat\<close>: the context keeps the last five queries; the search falls back to the keywords.\<close>

definition chat :: "chatbot \<Rightarrow> string \<Rightarrow> chatbot \<times> (py_error + string)" where
  "chat cb query =
     (let h1 = context_history cb @ [query];
          h2 = (if length h1 > max_context_length then tl h1 else h1);
          cb1 = cb\<lparr>context_history := h2\<rparr>;
          results = (case search (indexer cb1) query None 10 of Inr rs \<Rightarrow> rs | Inl e \<Rightarrow> []);
          results2 =
            (if results = []
             then (let keywords = preprocess_query cb1 query
                   in if keywords \<noteq> []
                      then (case search (indexer cb1) (py_join '' '' keywords) None 10 of
                              Inr rs \<Rightarrow> rs | Inl e \<Rightarrow> [])
                      else results)
             else results)
      in (cb1, snd (summarize_results cb1 results2 query)))"

section \<open>Concrete inputs\<close>

text \<open>
  A two-page portal whose pages link to each other, a store that answers every query
  with no rows, a store whose connection is down, and a small tokenizer set.
\<close>

definition home_page :: page where
  "home_page =
     \<lparr> soup_title = Some (Some ''MOSDAC''), soup_meta_description = None,
       soup_main_text = Some ''Satellite data portal'', soup_tables = [],
       soup_hrefs = [''/missions/''], soup_aria_labels = [], soup_announcements = [],
       soup_services = [], soup_satellite_data = [] \<rparr>"

definition missions_page :: page where
  "missions_page =
     \<lparr> soup_title = Some (Some ''Missions''), soup_meta_description = None,
       soup_main_text = Some ''Satellite missions'', soup_tables = [],
       soup_hrefs = [''https://mosdac.gov.in''], soup_aria_labels = [],
       soup_announcements = [], soup_services = [], soup_satellite_data = [] \<rparr>"

definition portal_web :: web where
  "portal_web =
     \<lparr> base_url = ''https://mosdac.gov.in'',
       render = (\<lambda>u. if u = ''https://mosdac.gov.in'' then Some home_page
                     else if u = ''https://mosdac.gov.in/missions/'' then Some missions_page
                     else None),
       urljoin = (\<lambda>b h. if prefix ''https://'' h then h else ''https://mosdac.gov.in'' @ h),
       netloc = (\<lambda>u. if prefix ''https://mosdac.gov.in'' u then ''mosdac.gov.in'' else []),
       clock = (\<lambda>u. ''2024-01-01T00:00:00''),
       save_progress_ok = (\<lambda>ds. True) \<rparr>"

definition empty_store :: store where
  "empty_store =
     \<lparr> table_rows = Map.empty, execute_select = (\<lambda>q c n. Inr []),
       execute_upsert = (\<lambda>d. None), fromisoformat_ok = (\<lambda>t. True) \<rparr>"

definition down_store :: store where
  "down_store =
     \<lparr> table_rows = Map.empty, execute_select = (\<lambda>q c n. Inl OperationalError),
       execute_upsert = (\<lambda>d. Some OperationalError), fromisoformat_ok = (\<lambda>t. True) \<rparr>"

definition demo_nlp :: nlp where
  "demo_nlp =
     \<lparr> word_tokenize = py_split, sent_tokenize = (\<lambda>t. if t = [] then [] else [t]),
       stop_words = {''the'', ''about''}, lemmatize = (\<lambda>t. t), textwrap_fill = (\<lambda>t. t) \<rparr>"

definition demo_bot :: chatbot where
  "demo_bot = \<lparr> indexer = empty_store, toolkit = demo_nlp, context_history = [] \<rparr>"

definition about_doc :: doc where
  "about_doc =
     \<lparr> url = ''https://mosdac.gov.in/about'', title = Some ''About'',
       text_content = ''Satellite imagery'', meta_description = [], tables = [], links = [],
       aria_labels = [], announcements = [], services = [], satellite_data = [],
       crawl_timestamp = ''2024-01-01T00:00:00'', category = ''other'', relevance = None \<rparr>"

definition portal_doc :: doc where
  "portal_doc =
     \<lparr> url = ''https://mosdac.gov.in/data-access/portal'', title = Some ''Satellite Data Access Portal'',
       text_content = ''Products'', meta_description = ''Access satellite data products'',
       tables = [], links = [], aria_labels = [], announcements = [], services = [],
       satellite_data = [], crawl_timestamp = ''2024-01-01T00:00:00'',
       category = ''data_access'', relevance = None \<rparr>"

text \<open>
  A page whose title element is empty, and a document whose title holds two keywords.
\<close>

definition untitled_page :: page where
  "untitled_page =
     \<lparr> soup_title = Some None, soup_meta_description = None,
       soup_main_text = Some ''Satellite data'', soup_tables = [], soup_hrefs = [],
       soup_aria_labels = [], soup_announcements = [], soup_services = [],
       soup_satellite_data = [] \<rparr>"

definition rain_doc :: doc where
  "rain_doc =
     \<lparr> url = ''https://mosdac.gov.in/rain'', title = Some ''Rainfall data'',
       text_content = [], meta_description = [], tables = [], links = [],
       aria_labels = [], announcements = [], services = [], satellite_data = [],
       crawl_timestamp = ''2024-01-01T00:00:00'', category = ''other'', relevance = None \<rparr>"

text \<open>The score of a document whose title is a string.\<close>

definition relevance_of :: "chatbot \<Rightarrow> string list \<Rightarrow> doc \<Rightarrow> rat" where
  "relevance_of cb keywords d =
     (case calculate_relevance cb d keywords of Inr r \<Rightarrow> r | Inl e \<Rightarrow> 0)"

text \<open>The invariant of a crawl run: no URL was appended twice, and every appended URL is visited.\<close>

definition crawl_inv :: "crawl_state \<Rightarrow> bool" where
  "crawl_inv s =
     (distinct (map url (content_data s)) \<and> set (map url (content_data s)) \<subseteq> visited_urls s)"

section \<open>Category classification is a function of the URL\<close>


section \<open>URL cleaning\<close>







text \<open>
  The slashes are stripped before the query is dropped, so a slash in front of a dropped
  query stays at the end of the result.
\<close>

lemma clean_url_slash_before_query: "clean_url ''http://a/?x=1'' = ''http://a/''"
  by code_simp

section \<open>The crawl traversal\<close>

lemma extract_content_url [simp]: "url (extract_content w soup u) = u"
  by (simp add: extract_content_def)

lemma crawl_inv_mono:
  "(crawl_inv s \<longrightarrow> crawl_inv (crawl_page w u depth max_depth s)) \<and>
   visited_urls s \<subseteq> visited_urls (crawl_page w u depth max_depth s)"
  "(crawl_inv s \<longrightarrow> crawl_inv (crawl_links w ls depth max_depth s)) \<and>
   visited_urls s \<subseteq> visited_urls (crawl_links w ls depth max_depth s)"
proof (induction w u depth max_depth s and w ls depth max_depth s
    rule: crawl_page_crawl_links.induct)
  case (1 w u depth max_depth s)
  show ?case
  proof (cases "u \<in> visited_urls s \<or> depth > max_depth")
    case True
    then show ?thesis by (simp add: crawl_page.simps)
  next
    case False
    define s1 where "s1 = s\<lparr>visited_urls := insert u (visited_urls s)\<rparr>"
    show ?thesis
    proof (cases "render w u")
      case None
      with False show ?thesis by (auto simp: crawl_inv_def crawl_page.simps)
    next
      case (Some soup)
      define content where "content = extract_content w soup u"
      define s2 where "s2 = s1\<lparr>content_data := content_data s1 @ [content]\<rparr>"
      have i2: "crawl_inv s \<Longrightarrow> crawl_inv s2"
        using False by (auto simp: crawl_inv_def s2_def s1_def content_def)
      have v2: "visited_urls s \<subseteq> visited_urls s2"
        by (auto simp: s2_def s1_def)
      show ?thesis
      proof (cases "save_progress_ok w (content_data s2)")
        case True
        have eq: "crawl_page w u depth max_depth s =
                  crawl_links w (links content) depth max_depth s2"
          using False Some True
          by (simp add: crawl_page.simps Let_def s2_def s1_def content_def)
        have IH: "(crawl_inv s2 \<longrightarrow>
                   crawl_inv (crawl_links w (links content) depth max_depth s2)) \<and>
                  visited_urls s2 \<subseteq>
                  visited_urls (crawl_links w (links content) depth max_depth s2)"
          using "1.IH" [OF False s1_def Some content_def s2_def True] .
        show ?thesis using IH i2 v2 unfolding eq by blast
      next
        case nosave: False
        have eq: "crawl_page w u depth max_depth s = s2"
          using False Some nosave
          by (simp add: crawl_page.simps Let_def s2_def s1_def content_def)
        show ?thesis using i2 v2 unfolding eq by blast
      qed
    qed
  qed
next
  case (2 w depth max_depth s)
  show ?case by simp
next
  case (3 w link rest depth max_depth s)
  show ?case
  proof (cases "link \<in> visited_urls s")
    case True
    with "3.IH"(2) show ?thesis by simp
  next
    case False
    with "3.IH"(1) "3.IH"(2) show ?thesis by simp blast
  qed
qed

lemma crawl_inv_fresh: "crawl_inv fresh_scraper"
  by (simp add: crawl_inv_def fresh_scraper_def)

text \<open>
  C3: the recursion of \<open>crawl_page\<close> and of its loop over the links is well founded on
  every input: whatever the pages, their (finite) link lists, the seed URL, the depth
  and \<open>max_depth\<close>, every call lies in the domain on which the traversal returns. On
  the portal whose two pages link to each other, the crawl returns with both visited.
\<close>

theorem crawl_page_terminates:
  "crawl_page_crawl_links_dom (Inl (w, u, depth, max_depth, s)) \<and>
   crawl_page_crawl_links_dom (Inr (w, ls, depth, max_depth, s)) \<and>
   visited_urls (crawl_page portal_web ''https://mosdac.gov.in'' 0 3 fresh_scraper) =
     {''https://mosdac.gov.in'', ''https://mosdac.gov.in/missions/''}"
proof -
  have "All crawl_page_crawl_links_dom"
    by (rule "crawl_page_crawl_links.termination" [of "measures
        [\<lambda>x. case x of
           Inl (w, u, depth, max_depth, s) \<Rightarrow> 2 * nat (max_depth + 1 - depth)
         | Inr (w, ls, depth, max_depth, s) \<Rightarrow> 2 * nat (max_depth - depth) + 1,
         \<lambda>x. case x of
           Inl (w, u, depth, max_depth, s) \<Rightarrow> 0
         | Inr (w, ls, depth, max_depth, s) \<Rightarrow> length ls]"]) auto
  moreover have
    "visited_urls (crawl_page portal_web ''https://mosdac.gov.in'' 0 3 fresh_scraper) =
       {''https://mosdac.gov.in'', ''https://mosdac.gov.in/missions/''}"
    by (simp add: crawl_page.simps portal_web_def home_page_def missions_page_def
        fresh_scraper_def extract_content_def is_valid_url_def Let_def) auto
  ultimately show ?thesis by simp
qed

text \<open>
  C4: in a crawl run, which starts from the fresh scraper state, no URL is appended to
  the accumulated document list twice, and no call of \<open>crawl_page\<close> removes a URL
  from the visited set.
\<close>

theorem crawl_appends_each_url_once:
  "distinct (map url (content_data (crawl_page w u depth max_depth fresh_scraper))) \<and>
   visited_urls s \<subseteq> visited_urls (crawl_page w u depth max_depth s)"
  using crawl_inv_mono(1) [of fresh_scraper w u depth max_depth]
    crawl_inv_mono(1) [of s w u depth max_depth] crawl_inv_fresh
  by (simp add: crawl_inv_def)

section \<open>Rounding to a double\<close>

lemma round_pos_double: "round_pos (2 * x) = 2 * round_pos x"
proof (cases "x \<le> 0")
  case True
  then show ?thesis by (simp add: round_pos.simps)
next
  case pos: False
  show ?thesis
  proof (cases "x < 2 ^ 52")
    case True
    then have "round_pos x = round_pos (2 * x) / 2"
      using pos by (subst round_pos.simps) simp
    then show ?thesis by simp
  next
    case False
    then have "2 ^ 53 \<le> 2 * x" by simp
    then have "round_pos (2 * x) = 2 * round_pos (2 * x / 2)"
      using pos by (subst round_pos.simps) simp
    then show ?thesis by simp
  qed
qed

lemma round_pos_half: "round_pos (x / 2) = round_pos x / 2"
  using round_pos_double [of "x / 2"] by simp

lemma round_pos_scale_up: "round_pos (x * 2 ^ n) = round_pos x * 2 ^ n"
proof (induction n)
  case 0
  show ?case by simp
next
  case (Suc n)
  have "round_pos (x * 2 ^ Suc n) = round_pos (2 * (x * 2 ^ n))" by (simp add: mult.commute mult.left_commute)
  also have "\<dots> = 2 * (round_pos x * 2 ^ n)" by (simp only: round_pos_double Suc)
  finally show ?case by simp
qed

lemma round_pos_scale_down: "round_pos (x / 2 ^ n) = round_pos x / 2 ^ n"
proof (induction n)
  case 0
  show ?case by simp
next
  case (Suc n)
  have "round_pos (x / 2 ^ Suc n) = round_pos ((x / 2 ^ n) / 2)" by (simp add: field_simps)
  also have "\<dots> = (round_pos x / 2 ^ n) / 2" by (simp only: round_pos_half Suc)
  finally show ?case by (simp add: field_simps)
qed

lemma round_half_even_ge_floor: "floor q \<le> round_half_even q"
  by (simp add: round_half_even_def Let_def)

lemma round_half_even_le_floor: "round_half_even q \<le> floor q + 1"
  by (simp add: round_half_even_def Let_def)

lemma round_half_even_mono:
  assumes "q \<le> q'"
  shows "round_half_even q \<le> round_half_even q'"
proof (cases "floor q < floor q'")
  case True
  have "round_half_even q \<le> floor q + 1" by (rule round_half_even_le_floor)
  also have "\<dots> \<le> floor q'" using True by simp
  also have "\<dots> \<le> round_half_even q'" by (rule round_half_even_ge_floor)
  finally show ?thesis .
next
  case False
  moreover have "floor q \<le> floor q'" using assms by (rule floor_mono)
  ultimately have eq: "floor q' = floor q" by simp
  then have "q - of_int (floor q) \<le> q' - of_int (floor q')" using assms by simp
  then show ?thesis
    unfolding round_half_even_def Let_def eq by auto
qed

lemma round_pos_normal: "2 ^ 52 \<le> x \<Longrightarrow> x < 2 ^ 53 \<Longrightarrow> round_pos x = of_int (round_half_even x)"
  by (subst round_pos.simps) auto

lemma round_pos_ge: "2 ^ 52 \<le> x \<Longrightarrow> 2 ^ 52 \<le> round_pos x"
proof (induction x rule: round_pos.induct)
  case (1 x)
  show ?case
  proof (cases "2 ^ 53 \<le> x")
    case True
    then have "2 ^ 52 \<le> x / 2" by simp
    moreover have "\<not> x \<le> 0" using True by simp
    ultimately have "2 ^ 52 \<le> round_pos (x / 2)" using "1.IH"(1) True by blast
    then show ?thesis by (simp add: round_pos_half)
  next
    case False
    then have "round_pos x = of_int (round_half_even x)"
      using "1.prems" by (intro round_pos_normal) simp_all
    moreover have "(2::int) ^ 52 \<le> floor x" using "1.prems" by (simp add: le_floor_iff)
    then have "(2::int) ^ 52 \<le> round_half_even x"
      using round_half_even_ge_floor [of x] by linarith
    then have "(2::rat) ^ 52 \<le> of_int (round_half_even x)"
      by (metis of_int_le_iff of_int_numeral of_int_power)
    ultimately show ?thesis by simp
  qed
qed

lemma normalise:
  "0 < x \<Longrightarrow> \<exists>n m. 2 ^ 52 \<le> x * 2 ^ n / 2 ^ m \<and> x * 2 ^ n / 2 ^ m < (2::rat) ^ 53"
proof (induction x rule: round_pos.induct)
  case (1 x)
  show ?case
  proof (cases "2 ^ 53 \<le> x")
    case True
    with "1.prems" "1.IH"(1) obtain n m
      where "2 ^ 52 \<le> x / 2 * 2 ^ n / 2 ^ m \<and> x / 2 * 2 ^ n / 2 ^ m < 2 ^ 53"
      by force
    then have "2 ^ 52 \<le> x * 2 ^ n / 2 ^ Suc m \<and> x * 2 ^ n / 2 ^ Suc m < 2 ^ 53"
      by (simp add: field_simps)
    then show ?thesis by blast
  next
    case big: False
    show ?thesis
    proof (cases "x < 2 ^ 52")
      case True
      with "1.prems" big "1.IH"(2) obtain n m
        where "2 ^ 52 \<le> 2 * x * 2 ^ n / 2 ^ m \<and> 2 * x * 2 ^ n / 2 ^ m < 2 ^ 53"
        by force
      then have "2 ^ 52 \<le> x * 2 ^ Suc n / 2 ^ m \<and> x * 2 ^ Suc n / 2 ^ m < 2 ^ 53"
        by (simp add: field_simps)
      then show ?thesis by blast
    next
      case False
      with big have "2 ^ 52 \<le> x * 2 ^ 0 / 2 ^ 0 \<and> x * 2 ^ 0 / 2 ^ 0 < 2 ^ 53" by simp
      then show ?thesis by blast
    qed
  qed
qed

lemma half_ge: "(2::rat) ^ 53 \<le> z \<Longrightarrow> 2 ^ 52 \<le> z / 2"
  by simp

lemma round_pos_mono:
  assumes "0 < x" "x \<le> y"
  shows "round_pos x \<le> round_pos y"
proof -
  from normalise [OF assms(1)] obtain n m
    where lo: "2 ^ 52 \<le> x * 2 ^ n / 2 ^ m" and hi: "x * 2 ^ n / 2 ^ m < 2 ^ 53"
    by blast
  let ?x = "x * 2 ^ n / 2 ^ m" and ?y = "y * 2 ^ n / 2 ^ m"
  have xy: "?x \<le> ?y" using assms(2) by (simp add: divide_right_mono)
  have sx: "round_pos ?x = round_pos x * 2 ^ n / 2 ^ m"
    by (simp only: round_pos_scale_down round_pos_scale_up)
  have sy: "round_pos ?y = round_pos y * 2 ^ n / 2 ^ m"
    by (simp only: round_pos_scale_down round_pos_scale_up)
  have "round_pos ?x \<le> round_pos ?y"
  proof (cases "?y < 2 ^ 53")
    case True
    have "round_pos ?x = of_int (round_half_even ?x)" using lo hi by (rule round_pos_normal)
    moreover have "round_pos ?y = of_int (round_half_even ?y)"
      using lo xy True by (intro round_pos_normal) simp_all
    moreover have "round_half_even ?x \<le> round_half_even ?y" using xy by (rule round_half_even_mono)
    ultimately show ?thesis by simp
  next
    case False
    then have "2 ^ 53 \<le> ?y" by simp
    then have "2 ^ 52 \<le> ?y / 2" by (rule half_ge)
    then have "2 ^ 52 \<le> round_pos (?y / 2)" by (rule round_pos_ge)
    then have "2 ^ 52 \<le> round_pos ?y / 2" by (simp only: round_pos_half)
    then have big: "2 ^ 53 \<le> round_pos ?y" by simp
    have "floor ?x < 2 ^ 53" using hi by (simp add: floor_less_iff)
    then have "round_half_even ?x \<le> 2 ^ 53"
      using round_half_even_le_floor [of ?x] by linarith
    then have "(of_int (round_half_even ?x) :: rat) \<le> 2 ^ 53"
      by (metis of_int_le_iff of_int_numeral of_int_power)
    moreover have "round_pos ?x = of_int (round_half_even ?x)" using lo hi by (rule round_pos_normal)
    ultimately show ?thesis using big by simp
  qed
  then have "round_pos x * 2 ^ n / 2 ^ m \<le> round_pos y * 2 ^ n / 2 ^ m"
    by (simp only: sx sy)
  then show ?thesis by (simp add: divide_le_cancel)
qed

lemma round_pos_nonneg: "0 \<le> round_pos x"
proof (cases "x \<le> 0")
  case True
  then show ?thesis by (simp add: round_pos.simps)
next
  case False
  then have x: "0 < x" by simp
  from normalise [OF x] obtain n m
    where lo: "2 ^ 52 \<le> x * 2 ^ n / 2 ^ m" by blast
  then have "2 ^ 52 \<le> round_pos (x * 2 ^ n / 2 ^ m)" by (rule round_pos_ge)
  then have "2 ^ 52 \<le> round_pos x * 2 ^ n / 2 ^ m"
    by (simp only: round_pos_scale_down round_pos_scale_up)
  then have "0 < round_pos x * 2 ^ n / 2 ^ m" by simp
  then have "0 < round_pos x" by (simp add: zero_less_divide_iff zero_less_mult_iff)
  then show ?thesis by simp
qed

lemma round_double_mono:
  assumes "x \<le> y"
  shows "round_double x \<le> round_double y"
proof (cases "x < 0")
  case True
  show ?thesis
  proof (cases "y < 0")
    case yneg: True
    then have "round_pos (- y) \<le> round_pos (- x)"
      using assms by (intro round_pos_mono) simp_all
    then show ?thesis using True yneg by (simp add: round_double_def)
  next
    case False
    have "- round_pos (- x) \<le> 0" using round_pos_nonneg [of "- x"] by simp
    also have "0 \<le> round_pos y" by (rule round_pos_nonneg)
    finally show ?thesis using True False by (simp add: round_double_def)
  qed
next
  case False
  show ?thesis
  proof (cases "x = 0")
    case True
    then show ?thesis using assms round_pos_nonneg [of y]
      by (simp add: round_double_def round_pos.simps)
  next
    case nz: False
    with False have "0 < x" by simp
    then have "round_pos x \<le> round_pos y" using assms by (rule round_pos_mono)
    then show ?thesis using False assms by (simp add: round_double_def)
  qed
qed


lemma round_pos_powi: "round_pos (x * 2 powi s) = round_pos x * 2 powi s"
proof (cases "0 \<le> s")
  case True
  then show ?thesis by (simp add: power_int_nonneg_exp round_pos_scale_up)
next
  case False
  then have "(2::rat) powi s = 1 / 2 ^ nat (- s)"
    by (simp add: power_int_def field_simps)
  then show ?thesis by (simp add: round_pos_scale_down)
qed

lemma of_int_bitlen_bounds:
  assumes "0 < p"
  shows "(2::rat) powi (bitlen p - 1) \<le> of_int p" and "(of_int p :: rat) < 2 powi bitlen p"
proof -
  from assms have b: "2 ^ nat (bitlen p - 1) \<le> p" "p < 2 ^ nat (bitlen p)"
    using bitlen_bounds [of p] by simp_all
  have ge1: "1 \<le> bitlen p" using assms by (simp add: bitlen_alt_def)
  have "(2::rat) powi (bitlen p - 1) = 2 ^ nat (bitlen p - 1)"
    using ge1 by (simp add: power_int_nonneg_exp)
  also have "\<dots> = of_int (2 ^ nat (bitlen p - 1))" by simp
  also have "\<dots> \<le> of_int p" using b(1) by (simp only: of_int_le_iff)
  finally show "(2::rat) powi (bitlen p - 1) \<le> of_int p" .
  have "(of_int p :: rat) < of_int (2 ^ nat (bitlen p))" using b(2) by (simp only: of_int_less_iff)
  also have "\<dots> = 2 ^ nat (bitlen p)" by simp
  also have "\<dots> = 2 powi bitlen p" using ge1 by (simp add: power_int_nonneg_exp)
  finally show "(of_int p :: rat) < 2 powi bitlen p" .
qed

lemma quotient_bounds:
  assumes "0 < x" "quotient_of x = (p, q)"
  shows "2 powi (bitlen p - bitlen q - 1) < x" and "x < 2 powi (bitlen p - bitlen q + 1)"
proof -
  have q: "0 < q" using assms(2) by (rule quotient_of_denom_pos)
  have x: "x = of_int p / of_int q" using assms(2) by (rule quotient_of_div)
  have p: "0 < p" using assms(1) q unfolding x by (simp add: zero_less_divide_iff)
  note bp = of_int_bitlen_bounds [OF p] and bq = of_int_bitlen_bounds [OF q]
  have qpos: "(0::rat) < of_int q" using q by simp
  have "(2::rat) powi (bitlen p - bitlen q - 1) = 2 powi (bitlen p - 1) / 2 powi bitlen q"
    by (simp add: power_int_diff)
  also have "\<dots> \<le> of_int p / 2 powi bitlen q"
    using bp(1) by (simp add: divide_right_mono)
  also have "\<dots> < of_int p / of_int q"
    using bq(2) p qpos by (simp add: divide_strict_left_mono)
  finally show "2 powi (bitlen p - bitlen q - 1) < x" unfolding x .
  have "of_int p / of_int q < (2::rat) powi bitlen p / of_int q"
    using bp(2) qpos by (simp add: divide_strict_right_mono)
  also have "\<dots> \<le> 2 powi bitlen p / 2 powi (bitlen q - 1)"
    using bq(1) qpos by (simp add: divide_left_mono)
  also have "\<dots> = 2 powi (bitlen p - (bitlen q - 1))"
    by (rule power_int_diff [symmetric]) simp
  also have "bitlen p - (bitlen q - 1) = bitlen p - bitlen q + 1" by simp
  finally show "x < 2 powi (bitlen p - bitlen q + 1)" unfolding x .
qed

lemma round_pos_code [code]:
  "round_pos x =
     (if x \<le> 0 then 0
      else let (p, q) = quotient_of x;
               s1 = 53 - (bitlen p - bitlen q);
               s = (if x * 2 powi s1 \<ge> 2 ^ 53 then s1 - 1 else s1)
           in of_int (round_half_even (x * 2 powi s)) * 2 powi (- s))"
proof (cases "x \<le> 0")
  case True
  then show ?thesis by (simp add: round_pos.simps)
next
  case False
  then have pos: "0 < x" by simp
  obtain p q where pq: "quotient_of x = (p, q)" by (cases "quotient_of x")
  define s1 where "s1 = 53 - (bitlen p - bitlen q)"
  define s where "s = (if x * 2 powi s1 \<ge> 2 ^ 53 then s1 - 1 else s1)"
  note b = quotient_bounds [OF pos pq]
  have "2 powi (bitlen p - bitlen q - 1) * 2 powi s1 < x * 2 powi s1"
    using b(1) by (simp add: mult_strict_right_mono)
  then have lo1: "2 ^ 52 < x * 2 powi s1"
    by (simp add: s1_def power_int_add [symmetric])
  have "x * 2 powi s1 < 2 powi (bitlen p - bitlen q + 1) * 2 powi s1"
    using b(2) by (simp add: mult_strict_right_mono)
  then have hi1: "x * 2 powi s1 < 2 ^ 54"
    by (simp add: s1_def power_int_add [symmetric])
  have half: "x * 2 powi (s1 - 1) = x * 2 powi s1 / 2"
    by (simp add: power_int_diff)
  have lo: "2 ^ 52 \<le> x * 2 powi s" and hi: "x * 2 powi s < 2 ^ 53"
    using lo1 hi1 by (auto simp: s_def half)
  have "(2::rat) powi s * 2 powi (- s) = 1"
    by (simp add: power_int_minus)
  then have "(x * 2 powi s) * 2 powi (- s) = x"
    by (simp only: mult.assoc mult_1_right)
  then have "round_pos x = round_pos ((x * 2 powi s) * 2 powi (- s))"
    by (simp only:)
  also have "\<dots> = round_pos (x * 2 powi s) * 2 powi (- s)" by (rule round_pos_powi)
  also have "\<dots> = of_int (round_half_even (x * 2 powi s)) * 2 powi (- s)"
    using lo hi by (simp only: round_pos_normal)
  finally show ?thesis
    using False by (simp add: pq s_def s1_def Let_def)
qed

lemma round_half_even_of_int [simp]: "round_half_even (of_int m) = m"
  by (simp add: round_half_even_def)

lemma round_pos_of_int:
  assumes "2 ^ 52 \<le> m" "m \<le> 2 ^ 53"
  shows "round_pos (of_int m) = of_int m"
proof (cases "m = 2 ^ 53")
  case True
  have "round_pos (2 * 2 ^ 52) = 2 * round_pos (2 ^ 52)" by (rule round_pos_double)
  moreover have "round_pos (2 ^ 52) = 2 ^ 52"
    by (subst round_pos_normal) (simp_all add: round_half_even_def)
  ultimately show ?thesis using True by simp
next
  case False
  with assms have "m < 2 ^ 53" by simp
  then have "(of_int m :: rat) < of_int (2 ^ 53)" by (simp only: of_int_less_iff)
  moreover have "(of_int (2 ^ 52) :: rat) \<le> of_int m" using assms(1) by (simp only: of_int_le_iff)
  ultimately have "round_pos (of_int m) = of_int (round_half_even (of_int m))"
    by (intro round_pos_normal) simp_all
  then show ?thesis by simp
qed

lemma round_pos_idem: "round_pos (round_pos x) = round_pos x"
proof (cases "x \<le> 0")
  case True
  then show ?thesis by (simp add: round_pos.simps)
next
  case False
  then have "0 < x" by simp
  from normalise [OF this] obtain n m
    where lo: "2 ^ 52 \<le> x * 2 ^ n / 2 ^ m" and hi: "x * 2 ^ n / 2 ^ m < 2 ^ 53"
    by blast
  let ?y = "x * 2 ^ n / 2 ^ m"
  let ?M = "round_half_even ?y"
  have ry: "round_pos ?y = of_int ?M" using lo hi by (rule round_pos_normal)
  have "(2::int) ^ 52 \<le> floor ?y" using lo by (simp add: le_floor_iff)
  then have M1: "2 ^ 52 \<le> ?M" using round_half_even_ge_floor [of ?y] by linarith
  have "floor ?y < 2 ^ 53" using hi by (simp add: floor_less_iff)
  then have M2: "?M \<le> 2 ^ 53" using round_half_even_le_floor [of ?y] by linarith
  have idem: "round_pos (round_pos ?y) = round_pos ?y"
    unfolding ry using M1 M2 by (rule round_pos_of_int)
  have sx: "round_pos ?y = round_pos x * 2 ^ n / 2 ^ m"
    by (simp only: round_pos_scale_down round_pos_scale_up)
  have unscale: "round_pos x = round_pos ?y * 2 ^ m / 2 ^ n"
    unfolding sx by simp
  have "round_pos (round_pos x) = round_pos (round_pos ?y * 2 ^ m / 2 ^ n)"
    by (simp only: unscale [symmetric])
  also have "\<dots> = round_pos (round_pos ?y) * 2 ^ m / 2 ^ n"
    by (simp only: round_pos_scale_down round_pos_scale_up)
  also have "\<dots> = round_pos x" by (simp only: idem unscale [symmetric])
  finally show ?thesis .
qed

lemma round_double_idem: "round_double (round_double x) = round_double x"
proof (cases "x < 0")
  case True
  have "0 \<le> round_pos (- x)" by (rule round_pos_nonneg)
  then have "round_pos (- x) = 0 \<or> 0 < round_pos (- x)" by linarith
  then show ?thesis
  proof
    assume "round_pos (- x) = 0"
    then show ?thesis using True by (simp add: round_double_def round_pos.simps)
  next
    assume "0 < round_pos (- x)"
    then show ?thesis using True by (simp add: round_double_def round_pos_idem)
  qed
next
  case False
  moreover have "\<not> round_pos x < 0" using round_pos_nonneg [of x] by simp
  ultimately show ?thesis by (simp add: round_double_def round_pos_idem)
qed

lemma float_add_mono: "x \<le> y \<Longrightarrow> float_add x w \<le> float_add y w"
  unfolding float_add_def by (rule round_double_mono) simp

lemma float_add_double [simp]: "round_double (float_add x y) = float_add x y"
  by (simp add: float_add_def round_double_idem)

lemma float_add_increases:
  assumes "round_double r = r" "0 \<le> w"
  shows "r \<le> float_add r w"
proof -
  have "round_double r \<le> round_double (r + w)" using assms(2) by (intro round_double_mono) simp
  then show ?thesis using assms(1) by (simp add: float_add_def)
qed

lemma round_double_zero [simp]: "round_double 0 = 0"
  by (simp add: round_double_def round_pos.simps)

section \<open>Relevance scoring\<close>

text \<open>
  Monotonicity of a loop that adds weights: the accumulator on the right stays a
  double (the invariant \<open>P\<close>), which the steps may use.
\<close>

lemma foldl_mono_inv:
  fixes r0 r0' :: rat
  assumes step: "\<And>r r' k. r \<le> r' \<Longrightarrow> P r' \<Longrightarrow> g r k \<le> g' r' k"
    and keep: "\<And>r' k. P r' \<Longrightarrow> P (g' r' k)"
    and "r0 \<le> r0'" "P r0'"
  shows "foldl g r0 ks \<le> foldl g' r0' ks"
  using assms(3,4)
proof (induction ks arbitrary: r0 r0')
  case Nil
  then show ?case by simp
next
  case (Cons k ks)
  from Cons.prems have "g r0 k \<le> g' r0' k" by (rule step)
  moreover from Cons.prems(2) have "P (g' r0' k)" by (rule keep)
  ultimately show ?case by (simp add: Cons.IH)
qed

lemma foldl_mono:
  fixes r0 r0' :: rat
  assumes "\<And>r r' k. r \<le> r' \<Longrightarrow> g r k \<le> g' r' k" and "r0 \<le> r0'"
  shows "foldl g r0 ks \<le> foldl g' r0' ks"
  by (rule foldl_mono_inv [where P = "\<lambda>r. True"]) (use assms in auto)

lemma foldl_bonus_mono:
  fixes r r' :: rat
  assumes "r \<le> r'"
  shows "foldl (\<lambda>x k. if c k then float_add x w else x) r ks
         \<le> foldl (\<lambda>x k. if c k then float_add x w else x) r' ks"
  by (rule foldl_mono) (use assms in \<open>auto intro: float_add_mono\<close>)

lemma sublist_extend: "sublist w t \<Longrightarrow> sublist w (a @ t @ b)"
  by (erule sublist_order.order_trans) simp

lemma split_ws_sublist: "w \<in> set (split_ws cur s) \<Longrightarrow> sublist w (cur @ s)"
proof (induction s arbitrary: cur)
  case Nil
  then show ?case by (auto split: if_splits)
next
  case (Cons c cs)
  show ?case
  proof (cases "py_isspace c")
    case True
    with Cons.prems have "w = cur \<or> w \<in> set (split_ws [] cs)"
      by (auto split: if_splits)
    then show ?thesis
    proof
      assume "w = cur"
      then show ?thesis by simp
    next
      assume "w \<in> set (split_ws [] cs)"
      then have "sublist w cs" using Cons.IH [of "[]"] by simp
      then have "sublist w ((cur @ [c]) @ cs @ [])" by (rule sublist_extend)
      then show ?thesis by simp
    qed
  next
    case False
    with Cons.prems have "w \<in> set (split_ws (cur @ [c]) cs)" by simp
    then have "sublist w ((cur @ [c]) @ cs)" by (rule Cons.IH)
    then show ?thesis by simp
  qed
qed

text \<open>A keyword inside a word of the title is inside the title: the \<open>elif\<close> never fires.\<close>

lemma partial_match_is_match:
  assumes "list_ex (\<lambda>word. py_in k word) (py_split t)"
  shows "py_in k t"
proof -
  from assms obtain w where w: "w \<in> set (split_ws [] t)" "sublist k w"
    by (auto simp: list_ex_iff py_split_def py_in_def)
  from w(1) have "sublist w t" using split_ws_sublist [of w "[]" t] by simp
  with w(2) show ?thesis unfolding py_in_def by (rule sublist_order.order_trans)
qed

lemma py_lower_append: "py_lower (a @ b) = py_lower a @ py_lower b"
  by (simp add: py_lower_def)

lemma py_in_extend: "py_in k t \<Longrightarrow> py_in k (a @ t @ b)"
  unfolding py_in_def by (rule sublist_extend)

lemma title_step_mono:
  fixes r r' :: rat
  assumes "r \<le> r'" "round_double r' = r'"
  shows "(if py_in k (py_lower t) then float_add r 3
          else if list_ex (\<lambda>word. py_in k word) (py_split (py_lower t)) then float_add r 2
               else r)
         \<le> (if py_in k (py_lower (a @ t @ b)) then float_add r' 3
             else if list_ex (\<lambda>word. py_in k word) (py_split (py_lower (a @ t @ b)))
                  then float_add r' 2 else r')"
proof (cases "py_in k (py_lower t)")
  case True
  then have "py_in k (py_lower (a @ t @ b))" by (simp add: py_lower_append py_in_extend)
  with True assms show ?thesis by (simp add: float_add_mono)
next
  case False
  then have no: "\<not> list_ex (\<lambda>word. py_in k word) (py_split (py_lower t))"
    using partial_match_is_match by blast
  have "r' \<le> float_add r' 3" "r' \<le> float_add r' 2"
    using assms(2) by (simp_all add: float_add_increases)
  with assms(1) have "r \<le> float_add r' 3" "r \<le> float_add r' 2" by simp_all
  with False no assms(1) show ?thesis by simp
qed

lemma title_loop_mono:
  "foldl (\<lambda>r keyword.
            if py_in keyword (py_lower t) then float_add r 3
            else if list_ex (\<lambda>word. py_in keyword word) (py_split (py_lower t))
                 then float_add r 2 else r) 0 keywords
   \<le> foldl (\<lambda>r keyword.
            if py_in keyword (py_lower (a @ t @ b)) then float_add r 3
            else if list_ex (\<lambda>word. py_in keyword word) (py_split (py_lower (a @ t @ b)))
                 then float_add r 2 else r) 0 keywords"
proof (rule foldl_mono_inv [where P = "\<lambda>r. round_double r = r"])
  show "(0::rat) \<le> 0" by simp
  show "round_double 0 = 0" by simp
next
  fix r r' :: rat and k
  assume "r \<le> r'" "round_double r' = r'"
  then show "(if py_in k (py_lower t) then float_add r 3
          else if list_ex (\<lambda>word. py_in k word) (py_split (py_lower t)) then float_add r 2
               else r)
         \<le> (if py_in k (py_lower (a @ t @ b)) then float_add r' 3
             else if list_ex (\<lambda>word. py_in k word) (py_split (py_lower (a @ t @ b)))
                  then float_add r' 2 else r')"
    by (rule title_step_mono)
next
  fix r' :: rat and k
  assume "round_double r' = r'"
  then show "round_double
          (if py_in k (py_lower (a @ t @ b)) then float_add r' 3
           else if list_ex (\<lambda>word. py_in k word) (py_split (py_lower (a @ t @ b)))
                then float_add r' 2 else r') =
         (if py_in k (py_lower (a @ t @ b)) then float_add r' 3
           else if list_ex (\<lambda>word. py_in k word) (py_split (py_lower (a @ t @ b)))
                then float_add r' 2 else r')"
    by simp
qed

lemma rest_mono:
  fixes r1 r1' :: rat
  assumes "r1 \<le> r1'"
  shows
   "foldl (\<lambda>r context.
             foldl (\<lambda>r' keyword. if py_in keyword content then float_add r' w5 else r')
               r (pq context))
      (foldl (\<lambda>r keyword. if py_in keyword cat then float_add r 2 else r)
         (foldl (\<lambda>r keyword.
                   if py_in keyword content
                   then foldl (\<lambda>r' other_keyword.
                                 if other_keyword \<noteq> keyword \<and>
                                    \<bar>py_find content keyword - py_find content other_keyword\<bar> < 50
                                 then float_add r' w3 else r')
                          (float_add r (1 / 2)) keywords
                   else r)
            (foldl (\<lambda>r keyword.
                      if py_in keyword desc then float_add r (3 / 2)
                      else if list_ex (\<lambda>word. py_in keyword word) (py_split desc)
                           then float_add r 1 else r)
               r1 keywords) keywords) keywords) history
    \<le>
    foldl (\<lambda>r context.
             foldl (\<lambda>r' keyword. if py_in keyword content then float_add r' w5 else r')
               r (pq context))
      (foldl (\<lambda>r keyword. if py_in keyword cat then float_add r 2 else r)
         (foldl (\<lambda>r keyword.
                   if py_in keyword content
                   then foldl (\<lambda>r' other_keyword.
                                 if other_keyword \<noteq> keyword \<and>
                                    \<bar>py_find content keyword - py_find content other_keyword\<bar> < 50
                                 then float_add r' w3 else r')
                          (float_add r (1 / 2)) keywords
                   else r)
            (foldl (\<lambda>r keyword.
                      if py_in keyword desc then float_add r (3 / 2)
                      else if list_ex (\<lambda>word. py_in keyword word) (py_split desc)
                           then float_add r 1 else r)
               r1' keywords) keywords) keywords) history"
  apply (rule foldl_mono)
   apply (rule foldl_bonus_mono, assumption)
  apply (rule foldl_bonus_mono)
  apply (rule foldl_mono)
   apply (auto intro!: foldl_bonus_mono float_add_mono)[1]
  apply (rule foldl_mono)
   apply (auto intro: float_add_mono)[1]
  apply (rule assms)
  done

text \<open>
  C8 as stated fails: the keyword \<open>data\<close> occurs in the title \<open>Rainfall data\<close>; one more
  occurrence of it, added inside the word \<open>Rainfall\<close>, takes the match of the keyword
  \<open>rainfall\<close> away, and the score falls from 6 to 3.
\<close>

theorem title_insertion_lowers_score:
  "title rain_doc = Some (''Rain'' @ ''fall data'') \<and>
   py_in ''data'' (py_lower (''Rain'' @ ''fall data'')) \<and>
   calculate_relevance demo_bot rain_doc [''rainfall'', ''data''] = Inr 6 \<and>
   calculate_relevance demo_bot (rain_doc\<lparr>title := Some (''Rain'' @ ''data'' @ ''fall data'')\<rparr>)
     [''rainfall'', ''data''] = Inr 3"
  by code_simp

text \<open>
  C8 as amended: for a document whose title is an ASCII string, a title that gains ASCII
  text in front of it or behind it, in particular one more occurrence of a keyword that
  the document already matches, never scores lower: every keyword found in the old
  title is found in the new one, the other signals do not read the title, and float
  addition is monotone.
\<close>

theorem calculate_relevance_title_mono:
  assumes "title d = Some t" "is_ascii t" "is_ascii before" "is_ascii after"
  shows "\<exists>r r'. calculate_relevance cb d keywords = Inr r \<and>
           calculate_relevance cb (d\<lparr>title := Some (before @ t @ after)\<rparr>) keywords = Inr r' \<and>
           r \<le> r'"
proof -
  show ?thesis
    using assms(1)
    apply (simp add: calculate_relevance_def Let_def del: py_find.simps cong: if_cong)
    apply (rule rest_mono)
    apply (rule title_loop_mono)
    done
qed

theorem calculate_relevance_title_mono_witness:
  "title rain_doc = Some ''Rainfall data'' \<and> is_ascii ''Rainfall data'' \<and> is_ascii [] \<and>
   is_ascii '' data'' \<and>
   (\<exists>r r'. calculate_relevance demo_bot rain_doc [''rainfall'', ''data''] = Inr r \<and>
           calculate_relevance demo_bot (rain_doc\<lparr>title := Some ([] @ ''Rainfall data'' @ '' data'')\<rparr>)
             [''rainfall'', ''data''] = Inr r' \<and> r \<le> r')"
proof -
  have h: "title rain_doc = Some ''Rainfall data''" "is_ascii ''Rainfall data''" "is_ascii []"
    "is_ascii '' data''"
    by code_simp+
  from calculate_relevance_title_mono [OF h, of demo_bot "[''rainfall'', ''data'']"] h
  show ?thesis by blast
qed

section \<open>Search against a failing store\<close>

text \<open>
  C1 (the code departs from it): for the query \<open>rainfall\<close> the store whose cursor
  raises an error and the store that matches no row give the same answer of \<open>search\<close>,
  the empty list: the handler of \<open>search\<close> returns \<open>[]\<close> instead of raising.
\<close>

theorem search_swallows_store_error:
  "execute_select down_store (clean_text ''rainfall'') None 10 = Inl OperationalError \<and>
   search down_store ''rainfall'' None 10 = Inr [] \<and>
   search empty_store ''rainfall'' None 10 = Inr []"
  by (simp add: search_def down_store_def empty_store_def)

section \<open>The proximity bonus\<close>

text \<open>
  C2 (the code departs from it): the content \<open>Satellite imagery\<close> holds the keyword
  \<open>satellite\<close> at offset 0 and does not hold \<open>rainfall\<close>, whose \<open>find\<close> is \<open>-1\<close>; the
  distance of the two offsets is 1, and the pair earns the bonus of 0.3 on top of the
  0.5 of the content match: the score is the float 0.8.
\<close>

theorem proximity_bonus_with_absent_keyword:
  "\<not> py_in ''rainfall'' (py_lower (text_content about_doc)) \<and>
   py_find (py_lower (text_content about_doc)) ''rainfall'' = - 1 \<and>
   calculate_relevance demo_bot about_doc [''satellite''] = Inr (1 / 2) \<and>
   calculate_relevance demo_bot about_doc [''rainfall''] = Inr 0 \<and>
   calculate_relevance demo_bot about_doc [''satellite'', ''rainfall''] =
     Inr (float_add (1 / 2) (py_float (3 / 10))) \<and>
   float_add (1 / 2) (py_float (3 / 10)) = 3602879701896397 / 4503599627370496"
  by code_simp

section \<open>The messages of the summarizer\<close>

lemma py_join_nonempty: "x \<noteq> [] \<Longrightarrow> py_join sep (x # xs) \<noteq> []"
  by (cases xs) auto

lemma set_sort_by_relevance [simp]: "set (sort_by_relevance ds) = set ds"
  by (simp add: sort_by_relevance_def)

lemma no_results_nonempty: "no_results_message q \<noteq> []"
  by (simp add: no_results_message_def)

lemma low_relevance_nonempty: "low_relevance_message q \<noteq> []"
  by (simp add: low_relevance_message_def)

lemma summary_nonempty: "py_join sep (summary_lines cb keywords kept) \<noteq> []"
  unfolding summary_lines_def by (rule py_join_nonempty) simp

lemma messages_differ: "no_results_message q \<noteq> low_relevance_message q"
  by (simp add: no_results_message_def low_relevance_message_def)

lemma calculate_relevance_titled:
  "title d \<noteq> None \<Longrightarrow> calculate_relevance cb d keywords = Inr (relevance_of cb keywords d)"
  by (cases "title d") (simp_all add: relevance_of_def calculate_relevance_def)

lemma calculate_relevance_untitled:
  "title d = None \<Longrightarrow> calculate_relevance cb d keywords = Inl AttributeError"
  by (simp add: calculate_relevance_def)

lemma score_results_titled:
  "list_all (\<lambda>d. title d \<noteq> None) ds \<Longrightarrow>
   score_results cb keywords ds =
     (map (\<lambda>d. d\<lparr>relevance := Some (relevance_of cb keywords d)\<rparr>) ds, None)"
  by (induction ds) (simp_all add: calculate_relevance_titled)

text \<open>
  On documents whose titles are strings the summarizer answers as C6 says: the
  no-results message for the empty list, the low-relevance message when every score is
  below 0.5, two messages that differ, and never the empty string.
\<close>

lemma summarize_titled:
  assumes "list_all (\<lambda>d. title d \<noteq> None) results"
  shows "\<exists>response. snd (summarize_results cb results query) = Inr response \<and> response \<noteq> [] \<and>
           (results = [] \<longrightarrow> response = no_results_message query) \<and>
           (results \<noteq> [] \<and> list_all (\<lambda>d. relevance_of cb (preprocess_query cb query) d
                < min_relevance) results \<longrightarrow> response = low_relevance_message query)"
proof (cases "results = []")
  case True
  then show ?thesis by (simp add: summarize_results_def no_results_nonempty)
next
  case False
  let ?kw = "preprocess_query cb query"
  let ?scored = "map (\<lambda>d. d\<lparr>relevance := Some (relevance_of cb ?kw d)\<rparr>) results"
  let ?kept = "filter (\<lambda>d. get_relevance d \<ge> min_relevance) (sort_by_relevance ?scored)"
  have sc: "score_results cb ?kw results = (?scored, None)"
    using assms by (rule score_results_titled)
  show ?thesis
  proof (cases "?kept = []")
    case True
    with False sc have "snd (summarize_results cb results query) = Inr (low_relevance_message query)"
      by (simp add: summarize_results_def Let_def)
    then show ?thesis using False by (simp add: low_relevance_nonempty)
  next
    case nonempty: False
    with False sc have r: "snd (summarize_results cb results query) =
        Inr (py_join [CHR 0x0A] (summary_lines cb ?kw ?kept))"
      by (simp add: summarize_results_def Let_def)
    have "\<not> list_all (\<lambda>d. relevance_of cb ?kw d < min_relevance) results"
    proof
      assume "list_all (\<lambda>d. relevance_of cb ?kw d < min_relevance) results"
      then have "\<forall>d \<in> set ?scored. \<not> get_relevance d \<ge> min_relevance"
        by (auto simp: list_all_iff get_relevance_def)
      then have "?kept = []" by (simp add: filter_empty_conv)
      with nonempty show False by simp
    qed
    with r False summary_nonempty [of "[CHR 0x0A]" cb ?kw ?kept] show ?thesis by simp
  qed
qed

text \<open>
  C6 (the code departs from it): a page whose title element is empty is extracted
  with the title \<open>None\<close>, \<open>index_document\<close> stores the row with that title, and on a
  result list that holds this document \<open>summarize_results\<close> raises \<open>AttributeError\<close>
  instead of returning a string.
\<close>

theorem summarize_raises_on_missing_title:
  "title (extract_content portal_web untitled_page ''https://mosdac.gov.in/untitled'') = None \<and>
   (case index_document empty_store
           (extract_content portal_web untitled_page ''https://mosdac.gov.in/untitled'') of
      Inl e \<Rightarrow> False
    | Inr st \<Rightarrow> map_option title (table_rows st ''https://mosdac.gov.in/untitled'') = Some None) \<and>
   snd (summarize_results demo_bot
          [extract_content portal_web untitled_page ''https://mosdac.gov.in/untitled'']
          ''satellite'') = Inl AttributeError"
  by (simp add: extract_content_def untitled_page_def index_document_def empty_store_def
      summarize_results_def calculate_relevance_def Let_def)

section \<open>What the summarizer does to its input\<close>

lemma mset_sort_by_relevance [simp]: "mset (sort_by_relevance ds) = mset ds"
  by (simp add: sort_by_relevance_def)

lemma sorted_sort_by_relevance: "sorted (rev (map get_relevance (sort_by_relevance ds)))"
  by (simp add: sort_by_relevance_def rev_map)

text \<open>The sort is stable: the documents of one score keep their order.\<close>

lemma filter_sort_by_relevance:
  "filter (\<lambda>d. get_relevance d = k) (sort_by_relevance ds) =
   filter (\<lambda>d. get_relevance d = k) ds"
proof -
  have "filter (\<lambda>d. get_relevance d = k) (sort_by_relevance ds) =
        rev (filter (\<lambda>d. get_relevance d = k) (sort_key get_relevance (rev ds)))"
    by (simp add: sort_by_relevance_def rev_filter)
  also have "\<dots> = rev (filter (\<lambda>d. get_relevance d = k) (rev ds))"
    by (simp only: sort_key_stable)
  also have "\<dots> = filter (\<lambda>d. get_relevance d = k) ds"
    by (simp add: rev_filter)
  finally show ?thesis .
qed

lemma score_results_frame:
  "mset (map (\<lambda>d. d\<lparr>relevance := None\<rparr>) (fst (score_results cb keywords ds))) =
   mset (map (\<lambda>d. d\<lparr>relevance := None\<rparr>) ds)"
proof (induction ds)
  case Nil
  show ?case by simp
next
  case (Cons d ds)
  show ?case
  proof (cases "calculate_relevance cb d keywords")
    case (Inl e)
    then show ?thesis by simp
  next
    case (Inr r)
    obtain ds' err where p: "score_results cb keywords ds = (ds', err)"
      by (cases "score_results cb keywords ds")
    with Cons.IH have "mset (map (\<lambda>d. d\<lparr>relevance := None\<rparr>) ds') =
        mset (map (\<lambda>d. d\<lparr>relevance := None\<rparr>) ds)"
      by simp
    with Inr p show ?thesis by simp
  qed
qed

lemma summarize_fst:
  "fst (summarize_results cb results query) =
     (if results = [] then []
      else case score_results cb (preprocess_query cb query) results of
             (scored, Some e) \<Rightarrow> scored
           | (scored, None) \<Rightarrow> sort_by_relevance scored)"
proof (cases "results = []")
  case True
  then show ?thesis by (simp add: summarize_results_def)
next
  case False
  obtain scored err where p: "score_results cb (preprocess_query cb query) results = (scored, err)"
    by (cases "score_results cb (preprocess_query cb query) results")
  show ?thesis
    using False p by (cases err) (simp_all add: summarize_results_def Let_def)
qed

lemma summarize_mset:
  "mset (map (\<lambda>d. d\<lparr>relevance := None\<rparr>) (fst (summarize_results cb results query))) =
   mset (map (\<lambda>d. d\<lparr>relevance := None\<rparr>) results)"
proof (cases "results = []")
  case True
  then show ?thesis by (simp add: summarize_fst)
next
  case False
  obtain scored err where p: "score_results cb (preprocess_query cb query) results = (scored, err)"
    by (cases "score_results cb (preprocess_query cb query) results")
  have m: "mset (map (\<lambda>d. d\<lparr>relevance := None\<rparr>) scored) =
           mset (map (\<lambda>d. d\<lparr>relevance := None\<rparr>) results)"
    using score_results_frame [of cb "preprocess_query cb query" results] p by simp
  show ?thesis
    using False p m by (cases err) (simp_all add: summarize_fst)
qed

lemma summarize_fst_titled:
  assumes "list_all (\<lambda>d. title d \<noteq> None) results"
  shows "fst (summarize_results cb results query) =
         sort_by_relevance
           (map (\<lambda>d. d\<lparr>relevance := Some (relevance_of cb (preprocess_query cb query) d)\<rparr>)
              results)"
proof (cases "results = []")
  case True
  then show ?thesis by (simp add: summarize_fst sort_by_relevance_def)
next
  case False
  then show ?thesis
    by (simp add: summarize_fst score_results_titled [OF assms])
qed

lemma summarize_stable:
  assumes "list_all (\<lambda>d. title d \<noteq> None) results"
  shows "filter (\<lambda>d. relevance d = Some k) (fst (summarize_results cb results query)) =
         map (\<lambda>d. d\<lparr>relevance := Some k\<rparr>)
           (filter (\<lambda>d. calculate_relevance cb d (preprocess_query cb query) = Inr k) results)"
proof -
  let ?kw = "preprocess_query cb query"
  let ?scored = "map (\<lambda>d. d\<lparr>relevance := Some (relevance_of cb ?kw d)\<rparr>) results"
  have stored: "\<And>d. d \<in> set (sort_by_relevance ?scored) \<Longrightarrow>
      (relevance d = Some k) = (get_relevance d = k)"
    by (auto simp: get_relevance_def)
  have "filter (\<lambda>d. relevance d = Some k) (sort_by_relevance ?scored) =
        filter (\<lambda>d. get_relevance d = k) (sort_by_relevance ?scored)"
    using stored by (intro filter_cong refl) blast
  also have "\<dots> = filter (\<lambda>d. get_relevance d = k) ?scored"
    by (rule filter_sort_by_relevance)
  also have "\<dots> = map (\<lambda>d. d\<lparr>relevance := Some (relevance_of cb ?kw d)\<rparr>)
                     (filter (\<lambda>d. relevance_of cb ?kw d = k) results)"
    by (simp add: filter_map comp_def get_relevance_def)
  also have "\<dots> = map (\<lambda>d. d\<lparr>relevance := Some k\<rparr>)
                     (filter (\<lambda>d. relevance_of cb ?kw d = k) results)"
    by (rule map_cong) simp_all
  also have "filter (\<lambda>d. relevance_of cb ?kw d = k) results =
             filter (\<lambda>d. calculate_relevance cb d ?kw = Inr k) results"
    using assms by (intro filter_cong refl) (auto simp: list_all_iff calculate_relevance_titled)
  finally show ?thesis by (simp only: summarize_fst_titled [OF assms])
qed

text \<open>
  C7 as stated fails: summarizing the list of the two documents \<open>about_doc\<close> and
  \<open>portal_doc\<close> for the query \<open>satellite\<close> leaves the caller's list with other
  \<open>relevance\<close> fields (they were absent) and in another order (the portal page first).
\<close>

theorem summarize_changes_documents:
  "map relevance (fst (summarize_results demo_bot [about_doc, portal_doc] ''satellite'')) \<noteq>
     map relevance [about_doc, portal_doc] \<and>
   map url (fst (summarize_results demo_bot [about_doc, portal_doc] ''satellite'')) \<noteq>
     map url [about_doc, portal_doc]"
  by code_simp

text \<open>
  C7 as amended. Apart from the \<open>relevance\<close> field the caller's list holds, after the
  call, the same documents as before, each as often as before, and the empty list is
  left empty. When every title is a string, then for every score \<open>k\<close> the documents of
  the list that carry the relevance \<open>k\<close> are the input documents whose
  \<open>calculate_relevance\<close> for the query is \<open>k\<close>, in their input order, each with
  \<open>relevance\<close> set to \<open>k\<close> and no other field changed; every document carries a
  relevance; and the list is in descending order of relevance. So the stored relevance
  is the score, and the sort is stable.
\<close>

theorem summarize_frame:
  "mset (map (\<lambda>d. d\<lparr>relevance := None\<rparr>) (fst (summarize_results cb results query))) =
     mset (map (\<lambda>d. d\<lparr>relevance := None\<rparr>) results) \<and>
   fst (summarize_results cb [] query) = [] \<and>
   (list_all (\<lambda>d. title d \<noteq> None) results \<longrightarrow>
      (\<forall>k. filter (\<lambda>d. relevance d = Some k) (fst (summarize_results cb results query)) =
           map (\<lambda>d. d\<lparr>relevance := Some k\<rparr>)
             (filter (\<lambda>d. calculate_relevance cb d (preprocess_query cb query) = Inr k)
                results)) \<and>
      list_all (\<lambda>d. relevance d \<noteq> None) (fst (summarize_results cb results query)) \<and>
      sorted (rev (map get_relevance (fst (summarize_results cb results query)))))"
proof -
  have "list_all (\<lambda>d. relevance d \<noteq> None) (fst (summarize_results cb results query))"
    and "sorted (rev (map get_relevance (fst (summarize_results cb results query))))"
    if t: "list_all (\<lambda>d. title d \<noteq> None) results"
    unfolding summarize_fst_titled [OF t]
    by (simp_all add: sorted_sort_by_relevance list_all_iff)
  then show ?thesis
    using summarize_mset [of cb results query] summarize_stable [of results _ cb query]
    by (simp add: summarize_fst)
qed

theorem summarize_frame_witness:
  "list_all (\<lambda>d. title d \<noteq> None) [about_doc, portal_doc] \<and>
   filter (\<lambda>d. relevance d = Some (1 / 2))
     (fst (summarize_results demo_bot [about_doc, portal_doc] ''satellite'')) =
   map (\<lambda>d. d\<lparr>relevance := Some (1 / 2)\<rparr>)
     (filter (\<lambda>d. calculate_relevance demo_bot d (preprocess_query demo_bot ''satellite'')
                  = Inr (1 / 2)) [about_doc, portal_doc]) \<and>
   sorted (rev (map get_relevance
     (fst (summarize_results demo_bot [about_doc, portal_doc] ''satellite''))))"
proof -
  have h: "list_all (\<lambda>d. title d \<noteq> None) [about_doc, portal_doc]"
    by (simp add: about_doc_def portal_doc_def)
  from summarize_frame [of demo_bot "[about_doc, portal_doc]" "''satellite''"] h
  show ?thesis by blast
qed

section \<open>The URL a document is keyed by\<close>

lemma clean_url_missions:
  "clean_url ''https://mosdac.gov.in/missions/'' = ''https://mosdac.gov.in/missions''"
  by code_simp

lemma index_document_empty_store:
  "index_document empty_store d =
     Inr (empty_store\<lparr>table_rows := [url d \<mapsto>
       d\<lparr>title := (case title d of None \<Rightarrow> None
                    | Some t \<Rightarrow> if t \<noteq> [] then Some (clean_text t) else Some t),
         text_content := if text_content d \<noteq> [] then clean_text (text_content d)
                         else text_content d,
         meta_description := if meta_description d \<noteq> [] then clean_text (meta_description d)
                             else meta_description d,
         links := map clean_url (filter (\<lambda>link. link \<noteq> []) (links d))\<rparr>]\<rparr>)"
  by (simp add: index_document_def empty_store_def Let_def cong: if_cong option.case_cong)

text \<open>
  C9 as stated fails: the missions page crawled at \<open>https://mosdac.gov.in/missions/\<close>
  yields a document whose \<open>url\<close> keeps the trailing slash that \<open>clean_url\<close> would
  strip, and \<open>index_document\<close> stores the row under that URL, not under the cleaned one.
\<close>

theorem crawled_url_not_canonical:
  "url (extract_content portal_web missions_page ''https://mosdac.gov.in/missions/'') =
     ''https://mosdac.gov.in/missions/'' \<and>
   clean_url ''https://mosdac.gov.in/missions/'' = ''https://mosdac.gov.in/missions'' \<and>
   (case index_document empty_store
           (extract_content portal_web missions_page ''https://mosdac.gov.in/missions/'') of
      Inl e \<Rightarrow> False
    | Inr st \<Rightarrow> map_option url (table_rows st ''https://mosdac.gov.in/missions/'') =
                 Some ''https://mosdac.gov.in/missions/'' \<and>
               table_rows st ''https://mosdac.gov.in/missions'' = None)"
  by (simp add: index_document_empty_store clean_url_missions)

text \<open>
  C9 as amended: the document that \<open>extract_content\<close> produces carries the crawled URL
  as it was passed in, and \<open>index_document\<close>, when the upsert succeeds, stores the row
  under that same \<open>url\<close>, unchanged; of the document's URLs only the entries of \<open>links\<close>
  are cleaned with \<open>clean_url\<close> (the empty ones dropped) before the row is stored.
\<close>

theorem index_document_keeps_url:
  "url (extract_content w soup u) = u \<and>
   (index_document st d = Inr st' \<longrightarrow>
      (\<exists>row. table_rows st' (url d) = Some row \<and> url row = url d \<and>
        links row = map clean_url (filter (\<lambda>link. link \<noteq> []) (links d))))"
proof -
  have "\<exists>row. table_rows st' (url d) = Some row \<and> url row = url d \<and>
        links row = map clean_url (filter (\<lambda>link. link \<noteq> []) (links d))"
    if "index_document st d = Inr st'"
    using that unfolding index_document_def Let_def
    by (auto split: if_splits option.splits)
  then show ?thesis by simp
qed

theorem index_document_keeps_url_witness:
  "(\<exists>st'. index_document empty_store
            (extract_content portal_web missions_page ''https://mosdac.gov.in/missions/'') = Inr st' \<and>
      (\<exists>row. table_rows st' ''https://mosdac.gov.in/missions/'' = Some row \<and>
             url row = ''https://mosdac.gov.in/missions/''))"
proof -
  let ?d = "extract_content portal_web missions_page ''https://mosdac.gov.in/missions/''"
  obtain st' where st': "index_document empty_store ?d = Inr st'"
    using index_document_empty_store [of ?d] by blast
  from index_document_keeps_url [of portal_web missions_page
      "''https://mosdac.gov.in/missions/''" empty_store ?d st'] st'
  obtain row where "table_rows st' (url ?d) = Some row" "url row = url ?d"
    by blast
  then have "table_rows st' ''https://mosdac.gov.in/missions/'' = Some row \<and>
             url row = ''https://mosdac.gov.in/missions/''"
    by (simp only: extract_content_url)
  with st' show ?thesis by blast
qed

end
